theory Spec2Isabelle
  imports Complex_Main
begin

section \<open>The identity-verification wizard (index.tsx)\<close>

text \<open>
  The program is one React component, \<^verbatim>\<open>App\<close>. Its state is seven \<^verbatim>\<open>useState\<close>
  cells and two refs; its code is the event handlers of the buttons, two asynchronous
  functions (\<^verbatim>\<open>startCamera\<close>, \<^verbatim>\<open>runVerification\<close>) and one effect keyed on the
  step. The embedding keeps the state as a record, every handler as a function on it, and
  cuts each asynchronous function at its \<^verbatim>\<open>await\<close>: the part before the await runs
  inside the handler that calls it, the part after it runs as an event of its own when the
  promise settles. The two copies of the file under src/ differ, in the code modelled here,
  only in the requested resolution and in the JPEG quality (0.9 and 0.85); the quality is a
  parameter and the resolution does not appear.
\<close>

subsection \<open>Data\<close>

text \<open>\<^verbatim>\<open>type AppStep\<close>. Two names are suffixed: they clash with a keyword and with the
  state cell \<^verbatim>\<open>result\<close>.\<close>

datatype AppStep =
  welcome_step | capture_id | review_id | capture_selfie | review_selfie | processing | result_step

text \<open>The two facing modes, \<^verbatim>\<open>'user' | 'environment'\<close>.\<close>

datatype facing = user | environment

text \<open>
  What \<^verbatim>\<open>JSON.parse\<close> returns, stored unchecked in the cell \<^verbatim>\<open>result\<close> (the cast
  \<^verbatim>\<open>as VerificationResult\<close> checks nothing at run time). \<open>JNull\<close> is JavaScript's
  \<^verbatim>\<open>null\<close>, also the cell's initial value.
\<close>

datatype json =
  JNull | JBool bool | JNumber real | JString string | JArray "json list"
  | JObject "(string \<times> json) list"



text \<open>\<^verbatim>\<open>!x\<close> for \<^verbatim>\<open>x: string | null\<close>: true of \<^verbatim>\<open>null\<close> and of the empty string.\<close>

definition falsy :: "string option \<Rightarrow> bool" where
  "falsy x = (case x of None \<Rightarrow> True | Some t \<Rightarrow> t = [])"

text \<open>
  The canvas. Its 2D context holds the current transformation matrix
  \<open>(a, b, c, d, e, f)\<close>, which maps \<open>(x, y)\<close> to \<open>(a x + c y + e, b x + d y + f)\<close>;
  \<open>drawn\<close> is the video frame painted on the bitmap with the matrix it was painted
  under. A video frame is its two dimensions and its content, which the model does not
  look into.
\<close>

type_synonym matrix = "int \<times> int \<times> int \<times> int \<times> int \<times> int"

datatype frame = Frame (videoWidth: nat) (videoHeight: nat) (content: nat)

record canvas =
  width :: nat
  height :: nat
  transform :: matrix
  drawn :: "(frame \<times> matrix) option"

definition identity :: matrix where
  "identity = (1, 0, 0, 1, 0, 0)"

fun translate :: "int \<Rightarrow> int \<Rightarrow> matrix \<Rightarrow> matrix" where
  "translate tx ty (a, b, c, d, e, f) = (a, b, c, d, a * tx + c * ty + e, b * tx + d * ty + f)"

fun scale :: "int \<Rightarrow> int \<Rightarrow> matrix \<Rightarrow> matrix" where
  "scale sx sy (a, b, c, d, e, f) = (a * sx, b * sx, c * sy, d * sy, e, f)"

fun apply_matrix :: "matrix \<Rightarrow> int \<times> int \<Rightarrow> int \<times> int" where
  "apply_matrix (a, b, c, d, e, f) (x, y) = (a * x + c * y + e, b * x + d * y + f)"

text \<open>
  What the browser supplies and the source does not define: \<^verbatim>\<open>JSON.parse\<close> (\<open>None\<close>
  when it throws), the encoder behind \<^verbatim>\<open>canvas.toDataURL(type, quality)\<close>, and the
  quality constant of the file at hand.
\<close>

record browser =
  JSON_parse :: "string \<Rightarrow> json option"
  toDataURL :: "canvas \<Rightarrow> string \<Rightarrow> real \<Rightarrow> string"
  quality :: real

text \<open>
  A \<^verbatim>\<open>getUserMedia\<close> promise that has not settled: the first request of
  \<^verbatim>\<open>startCamera\<close>, with the facing mode it asks for, or the unconstrained request of
  its catch branch. The verification promise settles with the response's \<^verbatim>\<open>text\<close>
  (\<open>None\<close> is \<^verbatim>\<open>undefined\<close>) or rejects.
\<close>

datatype request = Primary facing | Fallback

datatype call_outcome = Resolved "string option" | Rejected

text \<open>
  A \<^verbatim>\<open>MediaStream\<close>: its number and the facing of the camera that delivers it. The
  code never reads the second; it is the browser's choice when it grants a request.
\<close>

type_synonym stream = "nat \<times> facing"

text \<open>
  The component's state. The first seven fields are the \<^verbatim>\<open>useState\<close> cells.
  \<open>videoRef\<close> is \<^verbatim>\<open>videoRef.current\<close>: \<open>None\<close> while no video element is mounted,
  otherwise the element's \<^verbatim>\<open>srcObject\<close>. The remaining fields
  are the world the code acts on: \<open>live\<close> lists the streams that still have a track
  running, \<open>fresh\<close> numbers the next stream, \<open>pending\<close> holds the
  \<^verbatim>\<open>getUserMedia\<close> promises in flight, \<open>calls\<close> counts the calls of
  \<^verbatim>\<open>generateContent\<close> made so far and \<open>awaiting\<close> those not yet settled, and
  \<open>enumerating\<close> says that \<^verbatim>\<open>enumerateDevices\<close> has not settled.
\<close>

record app =
  step :: AppStep
  idImage :: "string option"
  selfieImage :: "string option"
  result :: json
  error :: "string option"
  facingMode :: facing
  hasMultipleCameras :: bool
  videoRef :: "stream option option"
  canvasRef :: "canvas option"
  live :: "stream list"
  fresh :: nat
  pending :: "request list"
  calls :: nat
  awaiting :: nat
  enumerating :: bool

definition init :: app where
  "init = \<lparr> step = welcome_step, idImage = None, selfieImage = None, result = JNull,
            error = None, facingMode = environment, hasMultipleCameras = False,
            videoRef = None,
            canvasRef = Some \<lparr> width = 300, height = 150, transform = identity, drawn = None \<rparr>,
            live = [], fresh = 0, pending = [], calls = 0, awaiting = 0,
            enumerating = True \<rparr>"

definition camera_error :: string where
  "camera_error = ''Could not access camera. Please ensure permissions are granted.''"

definition engine_error :: string where
  "engine_error = ''The verification engine encountered an error. Please try again.''"

subsection \<open>The camera\<close>

text \<open>\<^verbatim>\<open>stopCamera\<close>: stops every track of the stream bound to the video element and
  detaches it; nothing happens without an element or without a stream.\<close>

definition stopCamera :: "app \<Rightarrow> app" where
  "stopCamera s =
     (case videoRef s of
        Some (Some stream) \<Rightarrow> s\<lparr> live := removeAll stream (live s), videoRef := Some None \<rparr>
      | _ \<Rightarrow> s)"

text \<open>\<^verbatim>\<open>startCamera\<close> up to its first \<^verbatim>\<open>await\<close>: \<^verbatim>\<open>stopCamera()\<close>, then the
  request for a stream of the given facing mode.\<close>

definition startCamera :: "facing option \<Rightarrow> app \<Rightarrow> app" where
  "startCamera currentFacingMode s =
     (let s1 = stopCamera s;
          mode = (case currentFacingMode of None \<Rightarrow> facingMode s1 | Some m \<Rightarrow> m)
      in s1\<lparr> pending := pending s1 @ [Primary mode] \<rparr>)"

text \<open>A granted request opens a new stream, of a camera facing \<open>f\<close>; the code binds it
  to the video element \<^verbatim>\<open>if (videoRef.current)\<close>.\<close>

definition bind_stream :: "facing \<Rightarrow> app \<Rightarrow> app" where
  "bind_stream f s =
     (let stream = (fresh s, f) in
      s\<lparr> live := live s @ [stream], fresh := Suc (fresh s),
         videoRef := (case videoRef s of None \<Rightarrow> None | Some _ \<Rightarrow> Some (Some stream)) \<rparr>)"

definition settled :: "nat \<Rightarrow> request list \<Rightarrow> request list" where
  "settled i rs = take i rs @ drop (Suc i) rs"

text \<open>
  \<^verbatim>\<open>startCamera\<close> after an \<^verbatim>\<open>await\<close>: the \<open>i\<close>-th pending promise settles,
  refused (\<open>None\<close>) or granted with a camera of some facing. The first request names its
  mode as \<^verbatim>\<open>ideal\<close>, a preference, and the fallback request names none, so the facing
  granted is not tied to the mode asked for. A refused first request enters the catch
  branch, which issues the fallback request; a refused fallback sets the error message.
\<close>

definition getUserMedia_settles :: "nat \<Rightarrow> facing option \<Rightarrow> app \<Rightarrow> app option" where
  "getUserMedia_settles i granted s =
     (if i < length (pending s) then
        (case pending s ! i of
           Primary m \<Rightarrow>
             (case granted of
                Some f \<Rightarrow> Some (bind_stream f (s\<lparr> pending := settled i (pending s) \<rparr>))
              | None \<Rightarrow> Some (s\<lparr> pending := (pending s)[i := Fallback] \<rparr>))
         | Fallback \<Rightarrow>
             (case granted of
                Some f \<Rightarrow> Some (bind_stream f (s\<lparr> pending := settled i (pending s) \<rparr>))
              | None \<Rightarrow> Some (s\<lparr> pending := settled i (pending s), error := Some camera_error \<rparr>)))
      else None)"

definition flipCamera :: "app \<Rightarrow> app" where
  "flipCamera s =
     (let newMode = (if facingMode s = user then environment else user)
      in startCamera (Some newMode) (s\<lparr> facingMode := newMode \<rparr>))"

text \<open>
  \<^verbatim>\<open>captureImage\<close>. \<open>ctx\<close> says whether \<^verbatim>\<open>getContext('2d')\<close> returned a context,
  \<open>fr\<close> is the frame the video shows. Assigning the canvas's width or height resets its
  bitmap and its context.
\<close>

definition captureImage :: "browser \<Rightarrow> bool \<Rightarrow> frame \<Rightarrow> app \<Rightarrow> app" where
  "captureImage env ctx fr s =
     (case videoRef s of
        None \<Rightarrow> s
      | Some v \<Rightarrow>
         (case canvasRef s of
            None \<Rightarrow> s
          | Some c \<Rightarrow>
              if \<not> ctx then s
              else
                let c1 = c\<lparr> width := videoWidth fr, transform := identity, drawn := None \<rparr>;
                    c2 = c1\<lparr> height := videoHeight fr, transform := identity, drawn := None \<rparr>;
                    c3 = (if facingMode s = user
                          then c2\<lparr> transform := scale (- 1) 1 (translate (int (width c2)) 0 (transform c2)) \<rparr>
                          else c2);
                    c4 = c3\<lparr> drawn := Some (fr, transform c3) \<rparr>;
                    c5 = c4\<lparr> transform := identity \<rparr>;
                    dataUrl = toDataURL env c5 ''image/jpeg'' (quality env);
                    s1 = (if step s = capture_id
                          then s\<lparr> idImage := Some dataUrl, step := review_id \<rparr>
                          else s\<lparr> selfieImage := Some dataUrl, step := review_selfie \<rparr>)
                in stopCamera (s1\<lparr> canvasRef := Some c5 \<rparr>)))"

subsection \<open>The verification call\<close>

text \<open>The catch branch of \<^verbatim>\<open>runVerification\<close>.\<close>

definition catch_branch :: "app \<Rightarrow> app" where
  "catch_branch s = s\<lparr> error := Some engine_error, step := result_step \<rparr>"

text \<open>
  \<^verbatim>\<open>runVerification\<close> up to its \<^verbatim>\<open>await\<close>: the guard, the two state updates,
  and inside the try block the construction of the client and the call of
  \<^verbatim>\<open>generateContent\<close>. \<open>client\<close> says whether \<^verbatim>\<open>new GoogleGenAI(...)\<close> returned;
  when it throws (it is given \<^verbatim>\<open>process.env.API_KEY\<close>, which may be undefined) the catch
  branch runs at once and no call is made. Splitting a data URL does not throw; the
  request's contents play no part in what follows and are left out.
\<close>

definition runVerification_call :: "bool \<Rightarrow> app \<Rightarrow> app" where
  "runVerification_call client s =
     (if falsy (idImage s) \<or> falsy (selfieImage s) then s
      else
        let s1 = s\<lparr> step := processing, error := None \<rparr> in
        if client then s1\<lparr> calls := Suc (calls s1), awaiting := Suc (awaiting s1) \<rparr>
        else catch_branch s1)"

text \<open>\<^verbatim>\<open>response.text || '{}'\<close>.\<close>

definition text_or_empty_object :: "string option \<Rightarrow> string" where
  "text_or_empty_object t = (case t of None \<Rightarrow> ''{}'' | Some x \<Rightarrow> if x = [] then ''{}'' else x)"

text \<open>\<^verbatim>\<open>runVerification\<close> after its \<^verbatim>\<open>await\<close>: the rest of the try block, or the
  catch branch when the promise rejects or \<^verbatim>\<open>JSON.parse\<close> throws.\<close>

definition runVerification_settles :: "browser \<Rightarrow> call_outcome \<Rightarrow> app \<Rightarrow> app" where
  "runVerification_settles env outcome s =
     (let s1 = s\<lparr> awaiting := awaiting s - 1 \<rparr> in
      case outcome of
        Rejected \<Rightarrow> catch_branch s1
      | Resolved t \<Rightarrow>
          (case JSON_parse env (text_or_empty_object t) of
             None \<Rightarrow> catch_branch s1
           | Some data \<Rightarrow> s1\<lparr> result := data, step := result_step \<rparr>))"


definition reset :: "app \<Rightarrow> app" where
  "reset s = s\<lparr> idImage := None, selfieImage := None, result := JNull, error := None,
               step := welcome_step \<rparr>"

subsection \<open>What the result screen shows\<close>




subsection \<open>Events\<close>

text \<open>
  The buttons (each rendered only in the steps its JSX branch names) and the settling of
  the three kinds of promise. \<open>dispatch\<close> is the handler, \<open>None\<close> when the event cannot
  happen in the state. The shutter comes with what the browser answers inside
  \<^verbatim>\<open>captureImage\<close>, the Continue button with whether the client can be built.
\<close>

datatype event =
  Start | Flip | Shutter bool frame | Retake | Confirm bool | Cancel | NewVerification
  | Enumerated "nat option" | MediaSettles nat "facing option" | CallSettles call_outcome

fun dispatch :: "browser \<Rightarrow> event \<Rightarrow> app \<Rightarrow> app option" where
  "dispatch env Start s =
     (if step s = welcome_step then Some (s\<lparr> step := capture_id \<rparr>) else None)"
| "dispatch env Flip s =
     (if (step s = capture_id \<or> step s = capture_selfie) \<and> hasMultipleCameras s
      then Some (flipCamera s) else None)"
| "dispatch env (Shutter ctx fr) s =
     (if step s = capture_id \<or> step s = capture_selfie
      then Some (captureImage env ctx fr s) else None)"
| "dispatch env Retake s =
     (if step s = review_id \<or> step s = review_selfie
      then Some (s\<lparr> step := (if step s = review_id then capture_id else capture_selfie) \<rparr>)
      else None)"
| "dispatch env (Confirm client) s =
     (if step s = review_id \<or> step s = review_selfie
      then Some (if step s = review_id then s\<lparr> step := capture_selfie \<rparr>
                 else runVerification_call client s)
      else None)"
| "dispatch env Cancel s =
     (if step s \<noteq> welcome_step \<and> step s \<noteq> processing \<and> step s \<noteq> result_step
      then Some (reset s) else None)"
| "dispatch env NewVerification s =
     (if step s = result_step then Some (reset s) else None)"
| "dispatch env (Enumerated r) s =
     (if enumerating s
      then Some (case r of
                   None \<Rightarrow> s\<lparr> enumerating := False \<rparr>
                 | Some n \<Rightarrow> s\<lparr> hasMultipleCameras := (n > 1), enumerating := False \<rparr>)
      else None)"
| "dispatch env (MediaSettles i granted) s = getUserMedia_settles i granted s"
| "dispatch env (CallSettles outcome) s =
     (if awaiting s > 0 then Some (runVerification_settles env outcome s) else None)"

text \<open>
  After a handler React renders again. The video element is part of the tree exactly in
  the two capture steps, so a change of step mounts a new element (with no stream) or
  removes the old one, and the ref follows; React clears the ref of a removed element
  while it commits the change, before it runs the cleanup of the effect keyed on
  \<open>step\<close> (the root is made with \<^verbatim>\<open>createRoot\<close>, so effects and their cleanups run
  after the commit). Then the effect's cleanup (\<^verbatim>\<open>stopCamera\<close>) and its body run.
  \<open>handle\<close> is a handler followed by this commit; \<open>run\<close> handles a list of events in
  turn, and \<open>reachable\<close> are the states some list of events leads to from \<open>init\<close>.
\<close>

definition video_rendered :: "AppStep \<Rightarrow> bool" where
  "video_rendered st = (st = capture_id \<or> st = capture_selfie)"

definition step_effect :: "app \<Rightarrow> app" where
  "step_effect s =
     (if step s = capture_id then startCamera (Some environment) (s\<lparr> facingMode := environment \<rparr>)
      else if step s = capture_selfie then startCamera (Some user) (s\<lparr> facingMode := user \<rparr>)
      else s)"

definition commit :: "AppStep \<Rightarrow> app \<Rightarrow> app" where
  "commit prev s =
     (if step s = prev then s
      else
        let s1 = s\<lparr> videoRef :=
                     (if video_rendered (step s)
                      then (if video_rendered prev then videoRef s else Some None)
                      else None) \<rparr>
        in step_effect (stopCamera s1))"

definition handle :: "browser \<Rightarrow> event \<Rightarrow> app \<Rightarrow> app option" where
  "handle env e s = map_option (commit (step s)) (dispatch env e s)"

fun run :: "browser \<Rightarrow> event list \<Rightarrow> app \<Rightarrow> app option" where
  "run env [] s = Some s"
| "run env (e # es) s = (case handle env e s of None \<Rightarrow> None | Some s' \<Rightarrow> run env es s')"

inductive reachable :: "browser \<Rightarrow> app \<Rightarrow> bool" for env :: browser where
  reachable_init: "reachable env init"
| reachable_step: "reachable env s \<Longrightarrow> handle env e s = Some s' \<Longrightarrow> reachable env s'"

subsection \<open>Notions used in the statements\<close>

text \<open>The matrix left by \<^verbatim>\<open>translate(w, 0)\<close> followed by \<^verbatim>\<open>scale(-1, 1)\<close>: the
  reflection that maps \<open>(x, y)\<close> to \<open>(w - x, y)\<close>.\<close>

definition flip_horizontal :: "nat \<Rightarrow> matrix" where
  "flip_horizontal w = (- 1, 0, 0, 1, int w, 0)"

text \<open>The facing of the camera whose stream is bound to the video element.\<close>

definition bound_facing :: "app \<Rightarrow> facing option" where
  "bound_facing s = (case videoRef s of Some (Some (n, f)) \<Rightarrow> Some f | _ \<Rightarrow> None)"

text \<open>The verification call fails: its promise rejects, or \<^verbatim>\<open>JSON.parse\<close> throws on
  the text it resolved with. Either way control enters the catch branch.\<close>

definition throws :: "browser \<Rightarrow> call_outcome \<Rightarrow> bool" where
  "throws env outcome =
     (case outcome of Rejected \<Rightarrow> True
      | Resolved t \<Rightarrow> JSON_parse env (text_or_empty_object t) = None)"

text \<open>
  A concrete browser and a concrete response, for evaluating the model: a parser that knows
  the empty object and the response of the example scenario (a match, confidence 0.94,
  reasoning "faces match"), and an encoder that returns a fixed JPEG data URL.
\<close>

definition sample_text :: string where
  \<open>sample_text = ''{"isMatch":true,"confidence":0.94,"reasoning":"faces match"}''\<close>

definition sample_data :: json where
  "sample_data = JObject [(''isMatch'', JBool True), (''confidence'', JNumber (94 / 100)),
                          (''reasoning'', JString ''faces match'')]"

definition browser0 :: browser where
  "browser0 = \<lparr> JSON_parse = (\<lambda>t. if t = ''{}'' then Some (JObject [])
                                  else if t = sample_text then Some sample_data else None),
                toDataURL = (\<lambda>c t q. ''data:'' @ t @ '';base64,AA==''),
                quality = 9 / 10 \<rparr>"

text \<open>
  The invariant of the workflow: a review step has its image, an outcome is stored only in
  the step \<open>result\<close>, a call is awaited exactly in the step \<open>processing\<close>, and the canvas
  is mounted.
\<close>

definition workflow_invariant :: "app \<Rightarrow> bool" where
  "workflow_invariant s =
     ((step s = review_id \<longrightarrow> idImage s \<noteq> None) \<and>
      (step s = review_selfie \<longrightarrow> selfieImage s \<noteq> None) \<and>
      (step s \<noteq> result_step \<longrightarrow> result s = JNull) \<and>
      awaiting s = (if step s = processing then 1 else 0) \<and>
      canvasRef s \<noteq> None)"

text \<open>An ordinary run, cut at its first review step, its second review step and the
  verification call: start, camera granted, shutter, confirm, camera granted, shutter,
  confirm.\<close>

definition upto_review_id :: "event list" where
  "upto_review_id = [Start, MediaSettles 0 (Some environment), Shutter True (Frame 1920 1080 7)]"

definition upto_review_selfie :: "event list" where
  "upto_review_selfie =
     upto_review_id @ [Confirm True, MediaSettles 0 (Some user), Shutter True (Frame 1920 1080 8)]"

definition upto_processing :: "event list" where
  "upto_processing = upto_review_selfie @ [Confirm True]"

text \<open>
  Two runs that end in \<open>capture_id\<close> with a stream bound: in the first the request for the
  back camera is refused and the fallback request is granted a front camera; in the
  second the user cancels with the camera on and starts again.
\<close>

definition front_camera_by_fallback :: "event list" where
  "front_camera_by_fallback = [Start, MediaSettles 0 None, MediaSettles 0 (Some user)]"

definition cancel_and_start_again :: "event list" where
  "cancel_and_start_again =
     [Start, MediaSettles 0 (Some environment), Cancel, Start, MediaSettles 0 (Some environment)]"

text \<open>
  A run in which the selfie is taken before the front camera answers, and the camera is
  then refused (the request and its fallback) while the verification call is awaited.
\<close>

definition late_camera_failure :: "event list" where
  "late_camera_failure =
     upto_review_id @ [Confirm True, Shutter True (Frame 0 0 0), Confirm True,
                       MediaSettles 0 None, MediaSettles 0 None]"

text \<open>
  Camera operations that run to completion: the request of an \<open>Acquire\<close> or a
  \<open>FlipCamera\<close> settles (the first request, and the fallback when the first is refused)
  before the next operation starts. \<open>exclusive\<close> says that a video element is mounted,
  no request is in flight and the only live stream, if any, is the one bound to the
  element.
\<close>

datatype camera_op =
  Acquire facing "facing option" "facing option" | FlipCamera "facing option" "facing option"
  | Release | Capture frame

definition settle_newest :: "facing option \<Rightarrow> facing option \<Rightarrow> app \<Rightarrow> app" where
  "settle_newest g1 g2 s =
     (let i = length (pending s) - 1 in
      case getUserMedia_settles i g1 s of
        None \<Rightarrow> s
      | Some s1 \<Rightarrow>
          if g1 \<noteq> None then s1
          else (case getUserMedia_settles i g2 s1 of None \<Rightarrow> s1 | Some s2 \<Rightarrow> s2))"

fun perform :: "browser \<Rightarrow> camera_op \<Rightarrow> app \<Rightarrow> app" where
  "perform env (Acquire m g1 g2) s = settle_newest g1 g2 (startCamera (Some m) s)"
| "perform env (FlipCamera g1 g2) s = settle_newest g1 g2 (flipCamera s)"
| "perform env Release s = stopCamera s"
| "perform env (Capture fr) s = captureImage env True fr s"

definition exclusive :: "app \<Rightarrow> bool" where
  "exclusive s =
     (pending s = [] \<and>
      (case videoRef s of
         None \<Rightarrow> False
       | Some None \<Rightarrow> live s = []
       | Some (Some stream) \<Rightarrow> live s = [stream]))"

section \<open>Proofs\<close>

subsection \<open>What each function leaves unchanged\<close>

text \<open>
  The camera functions, the effect and the commit touch the camera fields only: each
  leaves the cells of the workflow as they are.
\<close>

lemma stopCamera_fields [simp]:
  "step (stopCamera s) = step s"
  "idImage (stopCamera s) = idImage s"
  "selfieImage (stopCamera s) = selfieImage s"
  "result (stopCamera s) = result s"
  "error (stopCamera s) = error s"
  "facingMode (stopCamera s) = facingMode s"
  "hasMultipleCameras (stopCamera s) = hasMultipleCameras s"
  "canvasRef (stopCamera s) = canvasRef s"
  "fresh (stopCamera s) = fresh s"
  "pending (stopCamera s) = pending s"
  "calls (stopCamera s) = calls s"
  "awaiting (stopCamera s) = awaiting s"
  "enumerating (stopCamera s) = enumerating s"
  by (simp_all add: stopCamera_def split: option.splits)

lemma startCamera_fields [simp]:
  "step (startCamera m s) = step s"
  "idImage (startCamera m s) = idImage s"
  "selfieImage (startCamera m s) = selfieImage s"
  "result (startCamera m s) = result s"
  "error (startCamera m s) = error s"
  "facingMode (startCamera m s) = facingMode s"
  "hasMultipleCameras (startCamera m s) = hasMultipleCameras s"
  "canvasRef (startCamera m s) = canvasRef s"
  "fresh (startCamera m s) = fresh s"
  "calls (startCamera m s) = calls s"
  "awaiting (startCamera m s) = awaiting s"
  "enumerating (startCamera m s) = enumerating s"
  by (simp_all add: startCamera_def Let_def)

lemma step_effect_fields [simp]:
  "step (step_effect s) = step s"
  "idImage (step_effect s) = idImage s"
  "selfieImage (step_effect s) = selfieImage s"
  "result (step_effect s) = result s"
  "error (step_effect s) = error s"
  "hasMultipleCameras (step_effect s) = hasMultipleCameras s"
  "canvasRef (step_effect s) = canvasRef s"
  "fresh (step_effect s) = fresh s"
  "calls (step_effect s) = calls s"
  "awaiting (step_effect s) = awaiting s"
  "enumerating (step_effect s) = enumerating s"
  by (simp_all add: step_effect_def)

lemma commit_fields [simp]:
  "step (commit p s) = step s"
  "idImage (commit p s) = idImage s"
  "selfieImage (commit p s) = selfieImage s"
  "result (commit p s) = result s"
  "error (commit p s) = error s"
  "hasMultipleCameras (commit p s) = hasMultipleCameras s"
  "canvasRef (commit p s) = canvasRef s"
  "fresh (commit p s) = fresh s"
  "calls (commit p s) = calls s"
  "awaiting (commit p s) = awaiting s"
  "enumerating (commit p s) = enumerating s"
  by (simp_all add: commit_def Let_def)

lemma commit_same [simp]: "commit (step s) s = s"
  by (simp add: commit_def)

lemma bind_stream_fields [simp]:
  "step (bind_stream f s) = step s"
  "idImage (bind_stream f s) = idImage s"
  "selfieImage (bind_stream f s) = selfieImage s"
  "result (bind_stream f s) = result s"
  "error (bind_stream f s) = error s"
  "facingMode (bind_stream f s) = facingMode s"
  "hasMultipleCameras (bind_stream f s) = hasMultipleCameras s"
  "canvasRef (bind_stream f s) = canvasRef s"
  "pending (bind_stream f s) = pending s"
  "calls (bind_stream f s) = calls s"
  "awaiting (bind_stream f s) = awaiting s"
  "enumerating (bind_stream f s) = enumerating s"
  by (simp_all add: bind_stream_def Let_def)

lemma getUserMedia_settles_fields:
  assumes "getUserMedia_settles i g s = Some s'"
  shows "step s' = step s" "idImage s' = idImage s" "selfieImage s' = selfieImage s"
    "result s' = result s" "calls s' = calls s" "awaiting s' = awaiting s"
    "canvasRef s' = canvasRef s"
  using assms
  by (auto simp: getUserMedia_settles_def split: if_splits request.splits option.splits)

text \<open>
  \<^verbatim>\<open>captureImage\<close> either returns at one of its guards or stores the image of the
  step at hand and moves to the review step of that image.
\<close>

lemma captureImage_step:
  "captureImage env ctx fr s = s \<or>
   (step s = capture_id \<and> step (captureImage env ctx fr s) = review_id
      \<and> idImage (captureImage env ctx fr s) \<noteq> None
      \<and> selfieImage (captureImage env ctx fr s) = selfieImage s) \<or>
   (step s \<noteq> capture_id \<and> step (captureImage env ctx fr s) = review_selfie
      \<and> selfieImage (captureImage env ctx fr s) \<noteq> None
      \<and> idImage (captureImage env ctx fr s) = idImage s)"
  by (simp add: captureImage_def Let_def split: option.splits)

lemma captureImage_fields [simp]:
  "result (captureImage env ctx fr s) = result s"
  "error (captureImage env ctx fr s) = error s"
  "calls (captureImage env ctx fr s) = calls s"
  "awaiting (captureImage env ctx fr s) = awaiting s"
  by (simp_all add: captureImage_def Let_def split: option.splits)

subsection \<open>The invariant of the workflow\<close>

text \<open>
  \<open>workflow_invariant\<close> holds initially and every handler keeps it, so it holds in every
  reachable state.
\<close>

lemma runVerification_settles_fields [simp]:
  "step (runVerification_settles env outcome s) = result_step"
  "idImage (runVerification_settles env outcome s) = idImage s"
  "selfieImage (runVerification_settles env outcome s) = selfieImage s"
  "calls (runVerification_settles env outcome s) = calls s"
  "awaiting (runVerification_settles env outcome s) = awaiting s - 1"
  "canvasRef (runVerification_settles env outcome s) = canvasRef s"
  by (simp_all add: runVerification_settles_def catch_branch_def Let_def
        split: call_outcome.splits option.splits)

lemma captureImage_canvas: "canvasRef s \<noteq> None \<Longrightarrow> canvasRef (captureImage env ctx fr s) \<noteq> None"
  by (auto simp: captureImage_def Let_def split: option.splits)

lemma invariant_init: "workflow_invariant init"
  by (simp add: workflow_invariant_def init_def)

lemma invariant_commit [simp]: "workflow_invariant (commit p s) = workflow_invariant s"
  by (simp add: workflow_invariant_def)

lemma invariant_dispatch:
  assumes "dispatch env e s = Some s'" and "workflow_invariant s"
  shows "workflow_invariant s'"
proof (cases e)
  case (Shutter ctx fr)
  with assms have s': "s' = captureImage env ctx fr s"
    and st: "step s = capture_id \<or> step s = capture_selfie"
    by (auto split: if_splits)
  consider "s' = s"
    | "step s = capture_id" "step s' = review_id" "idImage s' \<noteq> None"
    | "step s \<noteq> capture_id" "step s' = review_selfie" "selfieImage s' \<noteq> None"
    using captureImage_step [of env ctx fr s] unfolding s' by blast
  then show ?thesis
  proof cases
    case 1
    with assms(2) show ?thesis by simp
  next
    case 2
    with assms(2) captureImage_canvas [of s env ctx fr] show ?thesis
      unfolding workflow_invariant_def s' by simp
  next
    case 3
    with st assms(2) captureImage_canvas [of s env ctx fr] show ?thesis
      unfolding workflow_invariant_def s' by simp
  qed
next
  case (MediaSettles i g)
  with assms have "getUserMedia_settles i g s = Some s'" by simp
  from getUserMedia_settles_fields [OF this] assms(2)
  show ?thesis by (simp add: workflow_invariant_def)
next
  case (CallSettles outcome)
  with assms show ?thesis
    by (auto simp: workflow_invariant_def split: if_splits)
next
  case (Enumerated r)
  with assms show ?thesis
    by (auto simp: workflow_invariant_def split: if_splits option.splits)
next
  case Start
  with assms show ?thesis
    by (auto simp: workflow_invariant_def split: if_splits)
next
  case Flip
  with assms show ?thesis
    by (auto simp: workflow_invariant_def flipCamera_def Let_def split: if_splits)
next
  case Retake
  with assms show ?thesis
    by (auto simp: workflow_invariant_def split: if_splits)
next
  case (Confirm client)
  with assms show ?thesis
    by (auto simp: workflow_invariant_def runVerification_call_def catch_branch_def Let_def
          split: if_splits)
next
  case Cancel
  with assms show ?thesis
    by (auto simp: workflow_invariant_def reset_def split: if_splits)
next
  case NewVerification
  with assms show ?thesis
    by (auto simp: workflow_invariant_def reset_def split: if_splits)
qed

lemma reachable_invariant: "reachable env s \<Longrightarrow> workflow_invariant s"
proof (induction rule: reachable.induct)
  case reachable_init
  show ?case by (rule invariant_init)
next
  case (reachable_step s e s')
  from reachable_step.hyps(2) obtain t where "dispatch env e s = Some t" "s' = commit (step s) t"
    by (auto simp: handle_def)
  with reachable_step.IH show ?case
    by (simp add: invariant_dispatch)
qed

subsection \<open>Cancel and the review steps\<close>

text \<open>
  A run of events from a reachable state ends in a reachable state. \<open>eval_defs\<close> and
  \<open>trace_defs\<close> are the equations that evaluate a run on a concrete state.
\<close>

lemma run_reachable: "reachable env s \<Longrightarrow> run env es s = Some s' \<Longrightarrow> reachable env s'"
  by (induction es arbitrary: s) (auto split: option.splits intro: reachable_step)

lemmas eval_defs = handle_def commit_def step_effect_def startCamera_def stopCamera_def
  captureImage_def getUserMedia_settles_def bind_stream_def settled_def flipCamera_def
  runVerification_call_def runVerification_settles_def catch_branch_def reset_def
  video_rendered_def init_def browser0_def falsy_def identity_def text_or_empty_object_def
  Let_def

lemmas trace_defs = upto_review_id_def upto_review_selfie_def upto_processing_def
  late_camera_failure_def front_camera_by_fallback_def cancel_and_start_again_def

text \<open>
  Claim C1. In every state whose step is none of \<open>welcome\<close>, \<open>processing\<close> and
  \<open>result\<close> (every reachable one among them), the cancel action is available and leaves
  the step at \<open>welcome\<close> with the ID image, the selfie, the stored outcome and the error
  message cleared.
\<close>

theorem cancel_resets_workflow:
  assumes "step s \<noteq> welcome_step" "step s \<noteq> processing" "step s \<noteq> result_step"
  shows "\<exists>s'. handle env Cancel s = Some s' \<and> step s' = welcome_step \<and> idImage s' = None
           \<and> selfieImage s' = None \<and> result s' = JNull \<and> error s' = None"
  using assms by (simp add: handle_def reset_def)

text \<open>
  The theorem at the state reached by starting, being refused the camera twice (which sets
  the error message) and pressing the shutter: a review state with an image and an error.
\<close>

theorem cancel_resets_workflow_witness:
  "\<exists>s. run browser0 [Start, MediaSettles 0 None, MediaSettles 0 None,
                       Shutter True (Frame 0 0 0)] init = Some s
       \<and> step s = review_id \<and> idImage s \<noteq> None \<and> error s \<noteq> None
       \<and> (\<exists>s'. handle browser0 Cancel s = Some s' \<and> step s' = welcome_step \<and> idImage s' = None
              \<and> selfieImage s' = None \<and> result s' = JNull \<and> error s' = None)"
proof -
  obtain s where r: "run browser0 [Start, MediaSettles 0 None, MediaSettles 0 None,
                       Shutter True (Frame 0 0 0)] init = Some s"
    and st: "step s = review_id" "idImage s \<noteq> None" "error s \<noteq> None"
    by (simp add: eval_defs)
  from cancel_resets_workflow [of s browser0] st r show ?thesis by simp
qed

text \<open>
  Claim C2. In every reachable state, the step \<open>review_id\<close> implies that the ID image is
  not null and the step \<open>review_selfie\<close> that the selfie is not null.
\<close>

theorem review_steps_hold_image:
  "reachable env s \<Longrightarrow>
     (step s = review_id \<longrightarrow> idImage s \<noteq> None) \<and>
     (step s = review_selfie \<longrightarrow> selfieImage s \<noteq> None)"
  using reachable_invariant [of env s] by (simp add: workflow_invariant_def)

text \<open>
  The theorem at the two review states of an ordinary run.
\<close>

theorem review_steps_hold_image_witness:
  "(\<exists>s. run browser0 upto_review_id init = Some s \<and> reachable browser0 s
        \<and> step s = review_id \<and> idImage s \<noteq> None) \<and>
   (\<exists>s. run browser0 upto_review_selfie init = Some s \<and> reachable browser0 s
        \<and> step s = review_selfie \<and> selfieImage s \<noteq> None)"
proof -
  obtain s1 where r1: "run browser0 upto_review_id init = Some s1" and st1: "step s1 = review_id"
    by (simp add: trace_defs eval_defs)
  obtain s2 where r2: "run browser0 upto_review_selfie init = Some s2" and st2: "step s2 = review_selfie"
    by (simp add: trace_defs eval_defs)
  have re1: "reachable browser0 s1" and re2: "reachable browser0 s2"
    using run_reachable [OF reachable_init r1] run_reachable [OF reachable_init r2] by simp_all
  from review_steps_hold_image [OF re1] review_steps_hold_image [OF re2] r1 r2 re1 re2 st1 st2
  show ?thesis by simp
qed

subsection \<open>Confirm and retake\<close>

text \<open>
  Claim C3 says that confirming \<open>review_selfie\<close> triggers exactly one verification call if
  and only if both images are present. The client of the service is built inside the try
  block, before the call: on the ordinary run up to \<open>review_selfie\<close> both images are
  stored, and when building the client throws, confirming makes no call and the catch
  branch moves on to \<open>result\<close>.
\<close>

theorem confirm_without_client_counterexample:
  "map_option step (run browser0 upto_review_selfie init) = Some review_selfie
   \<and> map_option idImage (run browser0 upto_review_selfie init)
        = Some (Some ''data:image/jpeg;base64,AA=='')
   \<and> map_option selfieImage (run browser0 upto_review_selfie init)
        = Some (Some ''data:image/jpeg;base64,AA=='')
   \<and> map_option calls (run browser0 upto_review_selfie init) = Some 0
   \<and> map_option calls (run browser0 (upto_review_selfie @ [Confirm False]) init) = Some 0
   \<and> map_option step (run browser0 (upto_review_selfie @ [Confirm False]) init) = Some result_step"
  by (simp add: trace_defs eval_defs)

text \<open>
  Claim C3, amended. Confirming \<open>review_selfie\<close> issues exactly one verification call if
  and only if both images pass the test of \<^verbatim>\<open>runVerification\<close> (neither null nor empty)
  and the client is built; otherwise it issues none. When an image is absent the state is
  left as it is; when both are present and building the client throws, the workflow moves
  to \<open>result\<close> with the fixed error message. Confirming \<open>review_id\<close> always moves to
  \<open>capture_selfie\<close>, and in every reachable state in \<open>review_id\<close> it does so if and only
  if an ID image is present: both hold there.
\<close>

theorem confirm_guards:
  "(step s = review_selfie \<longrightarrow>
      (\<exists>s'. handle env (Confirm client) s = Some s'
         \<and> (calls s' = Suc (calls s))
             = (\<not> falsy (idImage s) \<and> \<not> falsy (selfieImage s) \<and> client)
         \<and> (calls s' = calls s)
             = (falsy (idImage s) \<or> falsy (selfieImage s) \<or> \<not> client)
         \<and> (falsy (idImage s) \<or> falsy (selfieImage s) \<longrightarrow> s' = s)
         \<and> (\<not> falsy (idImage s) \<and> \<not> falsy (selfieImage s) \<and> client \<longrightarrow>
               step s' = processing \<and> awaiting s' = Suc (awaiting s))
         \<and> (\<not> falsy (idImage s) \<and> \<not> falsy (selfieImage s) \<and> \<not> client \<longrightarrow>
               step s' = result_step \<and> error s' = Some engine_error
               \<and> awaiting s' = awaiting s))) \<and>
   (step s = review_id \<longrightarrow>
      (\<exists>s'. handle env (Confirm client) s = Some s' \<and> step s' = capture_selfie)) \<and>
   (reachable env s \<and> step s = review_id \<longrightarrow>
      ((\<exists>s'. handle env (Confirm client) s = Some s' \<and> step s' = capture_selfie)
        = (idImage s \<noteq> None)))"
proof (intro conjI impI)
  assume st: "step s = review_selfie"
  show "\<exists>s'. handle env (Confirm client) s = Some s'
         \<and> (calls s' = Suc (calls s))
             = (\<not> falsy (idImage s) \<and> \<not> falsy (selfieImage s) \<and> client)
         \<and> (calls s' = calls s)
             = (falsy (idImage s) \<or> falsy (selfieImage s) \<or> \<not> client)
         \<and> (falsy (idImage s) \<or> falsy (selfieImage s) \<longrightarrow> s' = s)
         \<and> (\<not> falsy (idImage s) \<and> \<not> falsy (selfieImage s) \<and> client \<longrightarrow>
               step s' = processing \<and> awaiting s' = Suc (awaiting s))
         \<and> (\<not> falsy (idImage s) \<and> \<not> falsy (selfieImage s) \<and> \<not> client \<longrightarrow>
               step s' = result_step \<and> error s' = Some engine_error
               \<and> awaiting s' = awaiting s)"
  proof (cases "falsy (idImage s) \<or> falsy (selfieImage s)")
    case True
    with st show ?thesis
      by (auto simp: handle_def runVerification_call_def commit_def)
  next
    case False
    with st show ?thesis
      by (cases client) (simp_all add: handle_def runVerification_call_def catch_branch_def)
  qed
next
  assume "step s = review_id"
  then show "\<exists>s'. handle env (Confirm client) s = Some s' \<and> step s' = capture_selfie"
    by (simp add: handle_def)
next
  assume a: "reachable env s \<and> step s = review_id"
  then have "idImage s \<noteq> None"
    using reachable_invariant [of env s] by (simp add: workflow_invariant_def)
  moreover from a have "\<exists>s'. handle env (Confirm client) s = Some s' \<and> step s' = capture_selfie"
    by (simp add: handle_def)
  ultimately show "(\<exists>s'. handle env (Confirm client) s = Some s' \<and> step s' = capture_selfie)
        = (idImage s \<noteq> None)"
    by simp
qed

text \<open>
  The theorem at a reachable \<open>review_selfie\<close> state with both images, with and without a
  client, at a \<open>review_selfie\<close> state without a selfie, and at a reachable \<open>review_id\<close>
  state.
\<close>

theorem confirm_guards_witness:
  "(\<exists>s. run browser0 upto_review_selfie init = Some s \<and> step s = review_selfie
        \<and> \<not> falsy (idImage s) \<and> \<not> falsy (selfieImage s)
        \<and> (\<exists>s'. handle browser0 (Confirm True) s = Some s' \<and> step s' = processing
               \<and> calls s' = Suc (calls s) \<and> awaiting s' = Suc (awaiting s))
        \<and> (\<exists>s'. handle browser0 (Confirm False) s = Some s' \<and> step s' = result_step
               \<and> calls s' = calls s \<and> error s' = Some engine_error)) \<and>
   (\<exists>s'. handle browser0 (Confirm True) (init\<lparr> step := review_selfie, idImage := Some ''data:,'' \<rparr>)
           = Some s'
        \<and> s' = init\<lparr> step := review_selfie, idImage := Some ''data:,'' \<rparr>) \<and>
   (\<exists>s. run browser0 upto_review_id init = Some s \<and> reachable browser0 s \<and> step s = review_id
        \<and> idImage s \<noteq> None
        \<and> (\<exists>s'. handle browser0 (Confirm True) s = Some s' \<and> step s' = capture_selfie))"
proof -
  obtain s2 where r2: "run browser0 upto_review_selfie init = Some s2"
    and st2: "step s2 = review_selfie" "\<not> falsy (idImage s2)" "\<not> falsy (selfieImage s2)"
    by (simp add: trace_defs eval_defs)
  obtain s1 where r1: "run browser0 upto_review_id init = Some s1" and st1: "step s1 = review_id"
    by (simp add: trace_defs eval_defs)
  have re1: "reachable browser0 s1"
    using run_reachable [OF reachable_init r1] .
  have a: "\<exists>s'. handle browser0 (Confirm True) s2 = Some s' \<and> step s' = processing
               \<and> calls s' = Suc (calls s2) \<and> awaiting s' = Suc (awaiting s2)"
    using confirm_guards [of s2 browser0 True] st2 by auto
  have a': "\<exists>s'. handle browser0 (Confirm False) s2 = Some s' \<and> step s' = result_step
               \<and> calls s' = calls s2 \<and> error s' = Some engine_error"
    using confirm_guards [of s2 browser0 False] st2 by auto
  have b: "\<exists>s'. handle browser0 (Confirm True) (init\<lparr> step := review_selfie, idImage := Some ''data:,'' \<rparr>)
           = Some s'
        \<and> s' = init\<lparr> step := review_selfie, idImage := Some ''data:,'' \<rparr>"
    using confirm_guards [of "init\<lparr> step := review_selfie, idImage := Some ''data:,'' \<rparr>" browser0 True]
    by (simp add: init_def falsy_def)
  have c: "idImage s1 \<noteq> None \<and> (\<exists>s'. handle browser0 (Confirm True) s1 = Some s' \<and> step s' = capture_selfie)"
    using confirm_guards [of s1 browser0 True] st1 re1 by blast
  from a a' b c r1 r2 re1 st1 st2 show ?thesis by blast
qed




subsection \<open>The verification call settles\<close>

text \<open>
  In a reachable state in \<open>processing\<close> exactly one call is awaited and no outcome is
  stored; the two ways \<^verbatim>\<open>runVerification\<close> continues after its await.
\<close>

lemma processing_awaits: "reachable env s \<Longrightarrow> step s = processing \<Longrightarrow> awaiting s = 1 \<and> result s = JNull"
  using reachable_invariant [of env s] by (simp add: workflow_invariant_def)


lemma settles_throws:
  "throws env outcome \<Longrightarrow>
   runVerification_settles env outcome s
     = s\<lparr> awaiting := awaiting s - 1, error := Some engine_error, step := result_step \<rparr>"
  by (simp add: runVerification_settles_def throws_def catch_branch_def split: call_outcome.splits)




text \<open>
  No event that can happen in the step \<open>result\<close> issues a verification call.
\<close>

lemma result_step_no_call:
  assumes "step s = result_step" and "handle env e s = Some s'" and "awaiting s = 0"
  shows "calls s' = calls s \<and> awaiting s' = 0"
proof -
  from assms(2) obtain u where d: "dispatch env e s = Some u" and s': "s' = commit (step s) u"
    by (auto simp: handle_def)
  have "calls u = calls s \<and> awaiting u = 0"
  proof (cases e)
    case (MediaSettles i g)
    with d have "getUserMedia_settles i g s = Some u" by simp
    from getUserMedia_settles_fields [OF this] assms(3) show ?thesis by simp
  next
    case (Enumerated r)
    with d assms(3) show ?thesis by (auto split: if_splits option.splits)
  next
    case NewVerification
    with d assms(3) show ?thesis by (auto simp: reset_def split: if_splits)
  qed (use d assms(1,3) in \<open>simp_all\<close>)
  then show ?thesis by (simp add: s')
qed

text \<open>
  Claim C6. When the call fails (the promise rejects, or \<^verbatim>\<open>JSON.parse\<close> throws on its
  text) in a reachable state in \<open>processing\<close>, the workflow moves to \<open>result\<close>, the fixed
  message is stored as the error, no outcome is stored, and no further call is issued:
  neither by the failure nor by any event after it.
\<close>

theorem verification_failure:
  assumes "reachable env s" and "step s = processing" and "throws env outcome"
  shows "\<exists>s'. handle env (CallSettles outcome) s = Some s' \<and> step s' = result_step
           \<and> error s' = Some engine_error \<and> result s' = JNull
           \<and> calls s' = calls s \<and> awaiting s' = 0
           \<and> (\<forall>e s''. handle env e s' = Some s'' \<longrightarrow> calls s'' = calls s \<and> awaiting s'' = 0)"
proof -
  from processing_awaits [OF assms(1,2)] have aw: "awaiting s = 1" and res: "result s = JNull"
    by simp_all
  define s' where "s' = commit processing (runVerification_settles env outcome s)"
  have h: "handle env (CallSettles outcome) s = Some s'"
    using aw assms(2) by (simp add: handle_def s'_def)
  have f: "step s' = result_step" "error s' = Some engine_error" "result s' = JNull"
    "calls s' = calls s" "awaiting s' = 0"
    using aw res by (simp_all add: s'_def settles_throws [OF assms(3)])
  have "\<forall>e s''. handle env e s' = Some s'' \<longrightarrow> calls s'' = calls s \<and> awaiting s'' = 0"
    using result_step_no_call [of s' env] f by auto
  with h f show ?thesis by blast
qed

text \<open>
  The theorem on an ordinary run, for a rejected promise and for a text that does not
  parse.
\<close>

theorem verification_failure_witness:
  "\<exists>p. run browser0 upto_processing init = Some p \<and> reachable browser0 p \<and> step p = processing
      \<and> throws browser0 Rejected \<and> throws browser0 (Resolved (Some ''not json''))
      \<and> (\<exists>s'. handle browser0 (CallSettles Rejected) p = Some s' \<and> step s' = result_step
             \<and> error s' = Some engine_error \<and> result s' = JNull
             \<and> calls s' = calls p \<and> awaiting s' = 0)
      \<and> (\<exists>s'. handle browser0 (CallSettles (Resolved (Some ''not json''))) p = Some s'
             \<and> step s' = result_step \<and> error s' = Some engine_error \<and> result s' = JNull
             \<and> calls s' = calls p \<and> awaiting s' = 0)"
proof -
  obtain p where rp: "run browser0 upto_processing init = Some p" and stp: "step p = processing"
    by (simp add: trace_defs eval_defs)
  have re: "reachable browser0 p"
    using run_reachable [OF reachable_init rp] .
  have t: "throws browser0 Rejected" "throws browser0 (Resolved (Some ''not json''))"
    by (simp_all add: throws_def browser0_def text_or_empty_object_def sample_text_def)
  from verification_failure [OF re stp t(1)] verification_failure [OF re stp t(2)] rp re stp t
  show ?thesis by blast
qed



text \<open>
  Claim C10. In every reachable state outside the step \<open>result\<close> the stored outcome is
  null, and every transition that leaves \<open>result\<close> ends in a state whose outcome is null.
\<close>

theorem outcome_only_in_result_step:
  assumes "reachable env s"
  shows "(step s \<noteq> result_step \<longrightarrow> result s = JNull) \<and>
         (step s = result_step \<longrightarrow>
            (\<forall>e s'. handle env e s = Some s' \<longrightarrow> step s' \<noteq> result_step \<longrightarrow> result s' = JNull))"
proof -
  have "\<And>u. reachable env u \<Longrightarrow> step u \<noteq> result_step \<Longrightarrow> result u = JNull"
    using reachable_invariant by (simp add: workflow_invariant_def)
  with assms show ?thesis
    by (blast intro: reachable_step)
qed

text \<open>
  The theorem on an ordinary run: null in \<open>processing\<close>, the parsed outcome in
  \<open>result\<close>, null again after the restart.
\<close>

theorem outcome_only_in_result_step_witness:
  "\<exists>p r. run browser0 upto_processing init = Some p \<and> reachable browser0 p
      \<and> step p = processing \<and> result p = JNull
      \<and> handle browser0 (CallSettles (Resolved (Some sample_text))) p = Some r
      \<and> reachable browser0 r \<and> step r = result_step \<and> result r = sample_data
      \<and> (\<exists>w. handle browser0 NewVerification r = Some w \<and> step w = welcome_step \<and> result w = JNull)"
proof -
  obtain p r where rp: "run browser0 upto_processing init = Some p" and stp: "step p = processing"
    and hr: "handle browser0 (CallSettles (Resolved (Some sample_text))) p = Some r"
    and str: "step r = result_step" "result r = sample_data"
    by (simp add: trace_defs eval_defs sample_text_def)
  obtain w where hw: "handle browser0 NewVerification r = Some w" and stw: "step w = welcome_step"
    using str(1) by (simp add: handle_def reset_def)
  have rep: "reachable browser0 p"
    using run_reachable [OF reachable_init rp] .
  have rer: "reachable browser0 r"
    using reachable_step [OF rep hr] .
  have "result p = JNull"
    using outcome_only_in_result_step [OF rep] stp by simp
  moreover have "result w = JNull"
    using outcome_only_in_result_step [OF rer] str(1) hw stw by auto
  ultimately show ?thesis
    using rp rep stp hr rer str hw stw by blast
qed

subsection \<open>Capture\<close>

text \<open>
  The matrix \<^verbatim>\<open>captureImage\<close> draws under in the facing mode \<open>user\<close> is the reflection
  of the canvas about its vertical axis.
\<close>

lemma flip_horizontal_apply: "apply_matrix (flip_horizontal w) (x, y) = (int w - x, y)"
  by (simp add: flip_horizontal_def)

lemma flip_horizontal_not_identity: "flip_horizontal w \<noteq> identity"
  by (simp add: flip_horizontal_def identity_def)

lemma mirror_matrix: "scale (- 1) 1 (translate (int w) 0 identity) = flip_horizontal w"
  by (simp add: identity_def flip_horizontal_def)

text \<open>
  Claim C7 says that the still is mirrored if and only if the active camera faces the
  front, and that no stream remains active after the capture. \<^verbatim>\<open>captureImage\<close> tests
  the cell \<open>facingMode\<close>, the mode last asked for: after the fallback request has been
  granted a front camera in the step \<open>capture_id\<close>, the cell is still \<open>environment\<close> and
  the frame is drawn unmirrored. And \<^verbatim>\<open>stopCamera\<close> stops the bound stream only: after
  cancel and a new start, stream 0 is still live beside the bound stream 1, and stays live
  after the capture.
\<close>

theorem capture_counterexample:
  "map_option bound_facing (run browser0 front_camera_by_fallback init) = Some (Some user)
   \<and> map_option facingMode (run browser0 front_camera_by_fallback init) = Some environment
   \<and> map_option canvasRef
        (run browser0 (front_camera_by_fallback @ [Shutter True (Frame 1920 1080 7)]) init)
       = Some (Some \<lparr> width = 1920, height = 1080, transform = identity,
                       drawn = Some (Frame 1920 1080 7, identity) \<rparr>)
   \<and> map_option videoRef (run browser0 cancel_and_start_again init)
       = Some (Some (Some (1, environment)))
   \<and> map_option live (run browser0 cancel_and_start_again init)
       = Some [(0, environment), (1, environment)]
   \<and> map_option live
        (run browser0 (cancel_and_start_again @ [Shutter True (Frame 1920 1080 7)]) init)
       = Some [(0, environment)]"
  by (simp add: trace_defs eval_defs bound_facing_def)

text \<open>
  Claim C7, amended. Capture with a stream bound to the video element (the canvas mounted,
  its 2D context obtained): the frame is drawn mirrored exactly when the cell
  \<open>facingMode\<close> is \<open>user\<close> and unchanged otherwise, the stored still is the canvas encoded
  as \<^verbatim>\<open>image/jpeg\<close> at the quality of the file, and afterwards the video element has no
  stream and the stream that was bound has no running track; the other live streams are
  as before.
\<close>

theorem capture_mirrors_encodes_releases:
  assumes "videoRef s = Some (Some stream)" and "canvasRef s = Some c"
  shows "\<exists>cv m. canvasRef (captureImage env True fr s) = Some cv
           \<and> width cv = videoWidth fr \<and> height cv = videoHeight fr
           \<and> drawn cv = Some (fr, m)
           \<and> (m = flip_horizontal (videoWidth fr)) = (facingMode s = user)
           \<and> (m = identity) = (facingMode s \<noteq> user)
           \<and> (if step s = capture_id then idImage (captureImage env True fr s)
               else selfieImage (captureImage env True fr s))
                = Some (toDataURL env cv ''image/jpeg'' (quality env))
           \<and> videoRef (captureImage env True fr s) = Some None
           \<and> stream \<notin> set (live (captureImage env True fr s))
           \<and> set (live (captureImage env True fr s)) = set (live s) - {stream}"
proof -
  define m where "m = (if facingMode s = user then flip_horizontal (videoWidth fr) else identity)"
  have mirrored: "(m = flip_horizontal (videoWidth fr)) = (facingMode s = user)"
    "(m = identity) = (facingMode s \<noteq> user)"
    using flip_horizontal_not_identity [of "videoWidth fr"] by (auto simp: m_def)
  have "\<exists>cv. canvasRef (captureImage env True fr s) = Some cv
           \<and> width cv = videoWidth fr \<and> height cv = videoHeight fr
           \<and> drawn cv = Some (fr, m)
           \<and> (if step s = capture_id then idImage (captureImage env True fr s)
               else selfieImage (captureImage env True fr s))
                = Some (toDataURL env cv ''image/jpeg'' (quality env))
           \<and> videoRef (captureImage env True fr s) = Some None
           \<and> stream \<notin> set (live (captureImage env True fr s))
           \<and> set (live (captureImage env True fr s)) = set (live s) - {stream}"
    using assms
    by (simp add: captureImage_def stopCamera_def Let_def mirror_matrix m_def)
  with mirrored show ?thesis by blast
qed

text \<open>
  The theorem at the two capture states of an ordinary run: back camera for the ID, front
  camera for the selfie.
\<close>

theorem capture_mirrors_encodes_releases_witness:
  "\<exists>a b. run browser0 [Start, MediaSettles 0 (Some environment)] init = Some a
      \<and> run browser0 (upto_review_id @ [Confirm True, MediaSettles 0 (Some user)]) init = Some b
      \<and> videoRef a = Some (Some (0, environment)) \<and> facingMode a = environment \<and> live a = [(0, environment)]
      \<and> videoRef b = Some (Some (1, user)) \<and> facingMode b = user \<and> live b = [(1, user)]
      \<and> (\<exists>cv. canvasRef (captureImage browser0 True (Frame 1920 1080 7) a) = Some cv
             \<and> drawn cv = Some (Frame 1920 1080 7, identity)
             \<and> idImage (captureImage browser0 True (Frame 1920 1080 7) a)
                  = Some (toDataURL browser0 cv ''image/jpeg'' (quality browser0)))
      \<and> videoRef (captureImage browser0 True (Frame 1920 1080 7) a) = Some None
      \<and> live (captureImage browser0 True (Frame 1920 1080 7) a) = []
      \<and> (\<exists>cv. canvasRef (captureImage browser0 True (Frame 1920 1080 8) b) = Some cv
             \<and> drawn cv = Some (Frame 1920 1080 8, flip_horizontal 1920)
             \<and> selfieImage (captureImage browser0 True (Frame 1920 1080 8) b)
                  = Some (toDataURL browser0 cv ''image/jpeg'' (quality browser0)))
      \<and> videoRef (captureImage browser0 True (Frame 1920 1080 8) b) = Some None
      \<and> live (captureImage browser0 True (Frame 1920 1080 8) b) = []"
proof -
  obtain a where ra: "run browser0 [Start, MediaSettles 0 (Some environment)] init = Some a"
    and fa: "videoRef a = Some (Some (0, environment))" "facingMode a = environment" "live a = [(0, environment)]"
      "step a = capture_id" "canvasRef a = canvasRef init"
    by (simp add: eval_defs)
  obtain b where rb: "run browser0 (upto_review_id @ [Confirm True, MediaSettles 0 (Some user)]) init = Some b"
    and fb: "videoRef b = Some (Some (1, user))" "facingMode b = user" "live b = [(1, user)]"
      "step b = capture_selfie"
    and cb: "canvasRef b \<noteq> None"
    by (simp add: trace_defs eval_defs)
  from fa(5) obtain ca where ca: "canvasRef a = Some ca" by (simp add: init_def)
  from cb obtain cb' where cb': "canvasRef b = Some cb'" by blast
  from capture_mirrors_encodes_releases [OF fa(1) ca, of browser0 "Frame 1920 1080 7"] fa
  have A: "(\<exists>cv. canvasRef (captureImage browser0 True (Frame 1920 1080 7) a) = Some cv
             \<and> drawn cv = Some (Frame 1920 1080 7, identity)
             \<and> idImage (captureImage browser0 True (Frame 1920 1080 7) a)
                  = Some (toDataURL browser0 cv ''image/jpeg'' (quality browser0)))
      \<and> videoRef (captureImage browser0 True (Frame 1920 1080 7) a) = Some None
      \<and> live (captureImage browser0 True (Frame 1920 1080 7) a) = []"
    by auto
  from capture_mirrors_encodes_releases [OF fb(1) cb', of browser0 "Frame 1920 1080 8"] fb
  have B: "(\<exists>cv. canvasRef (captureImage browser0 True (Frame 1920 1080 8) b) = Some cv
             \<and> drawn cv = Some (Frame 1920 1080 8, flip_horizontal 1920)
             \<and> selfieImage (captureImage browser0 True (Frame 1920 1080 8) b)
                  = Some (toDataURL browser0 cv ''image/jpeg'' (quality browser0)))
      \<and> videoRef (captureImage browser0 True (Frame 1920 1080 8) b) = Some None
      \<and> live (captureImage browser0 True (Frame 1920 1080 8) b) = []"
    by auto
  from A B ra rb fa fb show ?thesis by blast
qed

subsection \<open>One stream at a time\<close>

text \<open>
  Claim C8 says that at most one stream is open at any time. \<^verbatim>\<open>startCamera\<close> stops the
  bound stream only before its own await. On a device with two cameras: start, then flip
  while the request of the effect is still pending, then both requests are granted. The
  second assignment to \<^verbatim>\<open>srcObject\<close> replaces stream 0 without stopping it, so streams 0
  and 1 are both live, and stream 0 stays live after the capture. A cancel with the camera
  on loses a stream as well: the video element is gone when the cleanup of the effect
  calls \<^verbatim>\<open>stopCamera\<close>, so the stream stays live on the welcome screen.
\<close>

theorem overlapping_requests_leave_two_streams:
  "map_option live (run browser0 [Enumerated (Some 2), Start, Flip,
                                  MediaSettles 0 (Some environment), MediaSettles 0 (Some user)] init)
     = Some [(0, environment), (1, user)]
   \<and> map_option videoRef (run browser0 [Enumerated (Some 2), Start, Flip,
                                  MediaSettles 0 (Some environment), MediaSettles 0 (Some user)] init)
     = Some (Some (Some (1, user)))
   \<and> map_option live (run browser0 [Enumerated (Some 2), Start, Flip,
                                  MediaSettles 0 (Some environment), MediaSettles 0 (Some user),
                                  Shutter True (Frame 1920 1080 7)] init)
     = Some [(0, environment)]
   \<and> map_option live (run browser0 [Start, MediaSettles 0 (Some environment), Cancel] init)
     = Some [(0, environment)]
   \<and> map_option videoRef (run browser0 [Start, MediaSettles 0 (Some environment), Cancel] init)
     = Some None"
  by (simp add: eval_defs)

text \<open>
  What does hold: when every request settles before the next camera operation starts,
  each request is issued with no stream live, and at most one stream is live after every
  operation.
\<close>

lemma request_after_release:
  assumes "exclusive s"
  shows "live (startCamera m s) = [] \<and> videoRef (startCamera m s) = Some None
         \<and> pending (startCamera m s) = [Primary (case m of None \<Rightarrow> facingMode s | Some f \<Rightarrow> f)]"
  using assms
  by (auto simp: exclusive_def startCamera_def stopCamera_def Let_def split: option.splits)

lemma settle_newest_exclusive:
  assumes "live s = []" and "videoRef s = Some None" and "pending s = [r]" and "r \<noteq> Fallback"
  shows "exclusive (settle_newest g1 g2 s)"
  using assms
  by (cases r; cases g1; cases g2)
     (auto simp: settle_newest_def getUserMedia_settles_def bind_stream_def settled_def
        exclusive_def Let_def)

lemma perform_exclusive:
  assumes "exclusive s"
  shows "exclusive (perform env op s)"
proof (cases op)
  case (Acquire m g1 g2)
  from request_after_release [OF assms, of "Some m"] show ?thesis
    unfolding Acquire by (auto intro: settle_newest_exclusive)
next
  case (FlipCamera g1 g2)
  have "exclusive (s\<lparr> facingMode := (if facingMode s = user then environment else user) \<rparr>)"
    using assms by (auto simp: exclusive_def split: option.splits)
  from request_after_release [OF this, of "Some (if facingMode s = user then environment else user)"]
  show ?thesis
    unfolding FlipCamera by (auto simp: flipCamera_def Let_def intro: settle_newest_exclusive)
next
  case Release
  with assms show ?thesis
    by (auto simp: exclusive_def stopCamera_def split: option.splits)
next
  case (Capture fr)
  with assms show ?thesis
    by (auto simp: exclusive_def captureImage_def stopCamera_def Let_def split: option.splits)
qed

lemma sequential_exclusive:
  "exclusive s \<Longrightarrow> exclusive (foldl (\<lambda>u op. perform env op u) s ops)"
  by (induction ops arbitrary: s) (simp_all add: perform_exclusive)

lemma exclusive_at_most_one: "exclusive s \<Longrightarrow> length (live s) \<le> 1"
  by (auto simp: exclusive_def split: option.splits)

end
